theory Spec2Isabelle
  imports Complex_Main "HOL-Library.Word" "HOL-Library.Sublist" "HOL-Library.Signed_Division"
    "HOL-Library.Char_ord"
begin

section \<open>Data model of smart\_mouse.cpp\<close>

text \<open>
  The embedding follows \<^verbatim>\<open>src/smart_mouse.cpp\<close>. Conventions:
  \<^item> a C++ \<^verbatim>\<open>int\<close> (the fields of \<^verbatim>\<open>cv::Rect\<close>, the coordinates the OCR engine
    reports) is a 32-bit word read as two's complement: \<open>+\<close> and \<open>-\<close> wrap, comparisons
    are the signed ones (\<open><s\<close>), and \<^verbatim>\<open>/\<close> truncates towards zero;
  \<^item> a C++ \<^verbatim>\<open>float\<close> is read in two ways, both as a \<^typ>\<open>real\<close>. In the exact reading
    (\<open>textSimilarity\<close>, \<open>elem_score\<close>, \<open>findBestMatch\<close>) arithmetic is exact and a
    decimal literal such as \<^verbatim>\<open>0.3f\<close> stands for the rational it names. In the binary32
    reading (\<open>textSimilarity_f32\<close>, \<open>elem_score_f32\<close>, \<open>findBestMatch_f32\<close>) every
    literal, conversion and operation is rounded to the nearest IEEE binary32 number, ties
    to even, as the program computes it; which element wins and whether it clears the
    threshold are stated in this reading, since they depend on the rounding. NaN and the
    infinities are not modelled;
  \<^item> a \<^verbatim>\<open>std::string\<close> is a \<^typ>\<open>string\<close>, one \<^typ>\<open>char\<close> per byte;
  \<^item> the loop counter \<^verbatim>\<open>int matches\<close> of \<^verbatim>\<open>textSimilarity\<close> is a \<^typ>\<open>nat\<close>: it only
    counts upwards from 0, at most once per character of a string;
  \<^item> the pointer \<^verbatim>\<open>UIElement*\<close> that \<^verbatim>\<open>findBestMatch\<close> returns points into the vector
    it was given: it is the index of the element, and \<^verbatim>\<open>nullptr\<close> is \<open>None\<close>;
  \<^item> OpenCV, Tesseract and the display are outside the repository: what they return is
    an input of the model (the record \<open>vision_env\<close> and the field \<open>screen_now\<close>);
  \<^item> what the program prints on \<^verbatim>\<open>std::cout\<close> is left out.
  Field names that are keywords of Isabelle or that would capture the variables
  \<open>x\<close>, \<open>y\<close> carry a prefix: \<open>rect_x\<close> for \<^verbatim>\<open>cv::Rect::x\<close>, \<open>elem_text\<close> and
  \<open>elem_type\<close> for \<^verbatim>\<open>UIElement::text\<close> and \<^verbatim>\<open>UIElement::type\<close>.
\<close>

type_synonym int32 = "32 word"


record Rect =
  rect_x :: int32
  rect_y :: int32
  rect_width :: int32
  rect_height :: int32

record UIElement =
  bounds :: Rect
  elem_text :: string
  elem_type :: string
  confidence :: real


subsection \<open>The external collaborators\<close>

text \<open>
  One word of Tesseract's result iterator at level \<^verbatim>\<open>RIL_WORD\<close>: what \<^verbatim>\<open>GetUTF8Text\<close>
  returns (\<open>None\<close> for a null pointer), \<^verbatim>\<open>Confidence\<close>, and the four integers
  \<^verbatim>\<open>BoundingBox\<close> leaves in \<^verbatim>\<open>x1, y1, x2, y2\<close>.
\<close>

record ocr_word =
  word_text :: "string option"
  word_conf :: real
  word_x1 :: int32
  word_y1 :: int32
  word_x2 :: int32
  word_y2 :: int32

type_synonym contour = "(int32 \<times> int32) list"

text \<open>
  The library calls of \<^verbatim>\<open>SmartVision\<close>, as functions of the image they are given:
  \<^item> \<open>ocr_iterator img\<close>: \<^verbatim>\<open>SetImage; Recognize(0); GetIterator()\<close> on the whole image. \<open>None\<close>
    is the null iterator; otherwise the iterator stands on a first word and
    \<^verbatim>\<open>Next\<close> walks through the remaining ones;
  \<^item> \<open>ocr_region_text img\<close>: \<^verbatim>\<open>SetImage; GetUTF8Text()\<close> on a cropped image, \<open>None\<close> for a
    null pointer;
  \<^item> \<open>cv_contours img\<close>: \<^verbatim>\<open>cvtColor\<close>, \<^verbatim>\<open>Canny(50, 150)\<close>, \<^verbatim>\<open>dilate\<close> twice,
    \<^verbatim>\<open>findContours(RETR_EXTERNAL, CHAIN_APPROX_SIMPLE)\<close>;
  \<^item> \<open>cv_boundingRect\<close>: \<^verbatim>\<open>cv::boundingRect\<close>;
  \<^item> \<open>cv_roi img rect\<close>: the crop \<^verbatim>\<open>screenshot(rect)\<close>.
\<close>

record 'img vision_env =
  ocr_iterator :: "'img \<Rightarrow> (ocr_word \<times> ocr_word list) option"
  ocr_region_text :: "'img \<Rightarrow> string option"
  cv_contours :: "'img \<Rightarrow> contour list"
  cv_boundingRect :: "contour \<Rightarrow> Rect"
  cv_roi :: "'img \<Rightarrow> Rect \<Rightarrow> 'img"

section \<open>SmartVision\<close>

subsection \<open>detectButtonRegions\<close>

text \<open>The condition of the \<^verbatim>\<open>if\<close> in the loop over the contours (lines 166 to 168).\<close>

definition button_like :: "Rect \<Rightarrow> bool" where
  "button_like rect \<longleftrightarrow>
     40 <s rect_width rect \<and> rect_width rect <s 400 \<and>
     20 <s rect_height rect \<and> rect_height rect <s 100 \<and>
     rect_height rect <s rect_width rect"

text \<open>The loop \<^verbatim>\<open>for (const auto& contour : contours)\<close>; \<open>buttons\<close> is the vector it fills.\<close>

fun collect_buttons :: "(contour \<Rightarrow> Rect) \<Rightarrow> contour list \<Rightarrow> Rect list \<Rightarrow> Rect list" where
  "collect_buttons br [] buttons = buttons"
| "collect_buttons br (c # cs) buttons =
     (let rect = br c in
      if button_like rect then collect_buttons br cs (buttons @ [rect])
      else collect_buttons br cs buttons)"

definition detectButtonRegions :: "'img vision_env \<Rightarrow> 'img \<Rightarrow> Rect list" where
  "detectButtonRegions env img =
     collect_buttons (cv_boundingRect env) (cv_contours env img) []"

subsection \<open>detectTextRegions\<close>

text \<open>
  The element the loop body builds for a word with text \<open>word\<close>: the box is
  \<^verbatim>\<open>cv::Rect(x1, y1, x2-x1, y2-y1)\<close>, the confidence is the engine's, the type is "text".
\<close>

definition word_element :: "ocr_word \<Rightarrow> string \<Rightarrow> UIElement" where
  "word_element w word =
     \<lparr>bounds = \<lparr>rect_x = word_x1 w, rect_y = word_y1 w,
                 rect_width = word_x2 w - word_x1 w,
                 rect_height = word_y2 w - word_y1 w\<rparr>,
      elem_text = word, elem_type = ''text'', confidence = word_conf w\<rparr>"

text \<open>
  The body of the \<^verbatim>\<open>do ... while (ri->Next(level))\<close> loop for the word the iterator stands
  on: a null text is skipped by \<^verbatim>\<open>continue\<close>, any other word is appended.
\<close>

definition append_word :: "ocr_word \<Rightarrow> UIElement list \<Rightarrow> UIElement list" where
  "append_word w elements =
     (case word_text w of
        None \<Rightarrow> elements
      | Some word \<Rightarrow> elements @ [word_element w word])"

text \<open>The do-while loop: the body runs for the current word, then for each further one.\<close>

fun drain_words :: "ocr_word \<Rightarrow> ocr_word list \<Rightarrow> UIElement list \<Rightarrow> UIElement list" where
  "drain_words w [] elements = append_word w elements"
| "drain_words w (w' # rest) elements = drain_words w' rest (append_word w elements)"

definition detectTextRegions :: "'img vision_env \<Rightarrow> 'img \<Rightarrow> UIElement list" where
  "detectTextRegions env img =
     (case ocr_iterator env img of
        None \<Rightarrow> []
      | Some (w, rest) \<Rightarrow> drain_words w rest [])"

text \<open>
  The words the loop visits, in order (none for the null iterator). The function is not
  in the source; the properties of \<open>detectTextRegions\<close> are stated with it.
\<close>

definition ocr_words :: "'img vision_env \<Rightarrow> 'img \<Rightarrow> ocr_word list" where
  "ocr_words env img =
     (case ocr_iterator env img of None \<Rightarrow> [] | Some (w, rest) \<Rightarrow> w # rest)"

subsection \<open>analyzeScreen\<close>

text \<open>
  The element built for one rectangle of \<open>buttonRects\<close>: type "button", confidence
  \<^verbatim>\<open>0.7f\<close>; its text is what the OCR engine reads in the crop, and stays the empty string
  of a fresh \<^verbatim>\<open>std::string\<close> when the engine returns a null pointer.
\<close>

definition button_element :: "'img vision_env \<Rightarrow> 'img \<Rightarrow> Rect \<Rightarrow> UIElement" where
  "button_element env screenshot rect =
     \<lparr>bounds = rect,
      elem_text = (case ocr_region_text env (cv_roi env screenshot rect) of
                     Some t \<Rightarrow> t | None \<Rightarrow> []),
      elem_type = ''button'', confidence = 0.7\<rparr>"

text \<open>The loop \<^verbatim>\<open>for (const auto& rect : buttonRects)\<close>.\<close>

fun append_buttons ::
  "'img vision_env \<Rightarrow> 'img \<Rightarrow> Rect list \<Rightarrow> UIElement list \<Rightarrow> UIElement list" where
  "append_buttons env screenshot [] allElements = allElements"
| "append_buttons env screenshot (rect # rects) allElements =
     append_buttons env screenshot rects
       (allElements @ [button_element env screenshot rect])"

definition analyzeScreen :: "'img vision_env \<Rightarrow> 'img \<Rightarrow> UIElement list" where
  "analyzeScreen env screenshot =
     (let textElements = detectTextRegions env screenshot;
          allElements = [] @ textElements;
          buttonRects = detectButtonRegions env screenshot
      in append_buttons env screenshot buttonRects allElements)"

subsection \<open>textSimilarity\<close>

text \<open>
  \<^verbatim>\<open>::tolower\<close> in the "C" locale (the program never calls \<^verbatim>\<open>setlocale\<close>): the letters
  A to Z move to a to z, every other byte stays.
\<close>

definition tolower :: "char \<Rightarrow> char" where
  "tolower c =
     (if CHR ''A'' \<le> c \<and> c \<le> CHR ''Z'' then char_of (of_char c + (32::nat)) else c)"

text \<open>
  \<^verbatim>\<open>std::string::find\<close> from position 0, with a string and with a character: the first
  position where the argument occurs, \<open>None\<close> for \<^verbatim>\<open>npos\<close>.
\<close>

fun string_find :: "string \<Rightarrow> string \<Rightarrow> nat option" where
  "string_find [] str = (if str = [] then Some 0 else None)"
| "string_find (c # s) str =
     (if prefix str (c # s) then Some 0 else map_option Suc (string_find s str))"

fun string_find_char :: "string \<Rightarrow> char \<Rightarrow> nat option" where
  "string_find_char [] c = None"
| "string_find_char (d # s) c =
     (if d = c then Some 0 else map_option Suc (string_find_char s c))"

text \<open>The loop \<^verbatim>\<open>for (char c : lowerA) if (lowerB.find(c) != npos) matches++\<close>.\<close>

fun count_matches :: "string \<Rightarrow> string \<Rightarrow> nat \<Rightarrow> nat" where
  "count_matches [] lowerB matches = matches"
| "count_matches (c # rest) lowerB matches =
     count_matches rest lowerB
       (if string_find_char lowerB c \<noteq> None then matches + 1 else matches)"

definition textSimilarity :: "string \<Rightarrow> string \<Rightarrow> real" where
  "textSimilarity a b =
     (let lowerA = map tolower a; lowerB = map tolower b in
      if string_find lowerA lowerB \<noteq> None \<or> string_find lowerB lowerA \<noteq> None then 0.9
      else real (count_matches lowerA lowerB 0) / real (max (length lowerA) (length lowerB)))"

subsection \<open>findBestMatch\<close>

text \<open>
  The score the loop body computes for one element (lines 298 to 304): the similarity of
  the element's text and the query, times \<^verbatim>\<open>1.2f\<close> for a button, times
  \<^verbatim>\<open>confidence / 100.0f\<close>.
\<close>

definition elem_score :: "UIElement \<Rightarrow> string \<Rightarrow> real" where
  "elem_score elem query =
     (let score = textSimilarity (elem_text elem) query;
          score = (if elem_type elem = ''button'' then score * 1.2 else score)
      in score * (confidence elem / 100))"

text \<open>
  The loop over the elements. \<open>i\<close> is the index of the element the loop stands on,
  \<open>best\<close> and \<open>bestScore\<close> are the two local variables.
\<close>

fun best_loop ::
  "UIElement list \<Rightarrow> string \<Rightarrow> nat \<Rightarrow> nat option \<Rightarrow> real \<Rightarrow> nat option \<times> real" where
  "best_loop [] query i best bestScore = (best, bestScore)"
| "best_loop (elem # rest) query i best bestScore =
     (let score = elem_score elem query in
      if score > bestScore then best_loop rest query (Suc i) (Some i) score
      else best_loop rest query (Suc i) best bestScore)"

definition findBestMatch :: "UIElement list \<Rightarrow> string \<Rightarrow> nat option" where
  "findBestMatch elements query =
     (case best_loop elements query 0 None 0 of
        (best, bestScore) \<Rightarrow> if bestScore > 0.3 then best else None)"

subsection \<open>textSimilarity and findBestMatch in binary32\<close>

text \<open>
  The finite numbers of IEEE binary32 are \<open>m * 2 ^ (e - 23)\<close> with \<open>\<bar>m\<bar> < 2 ^ 24\<close> and
  \<open>- 126 \<le> e \<le> 127\<close>. \<open>binade n x\<close> is the exponent \<open>e\<close> with \<open>2 ^ e \<le> x < 2 ^ (e + 1)\<close>
  of a positive \<open>x\<close>, found by halving or doubling at most \<open>n\<close> times; \<open>round_even\<close> rounds
  to the nearest integer, a tie to the even one; \<open>f32 x\<close> rounds \<open>x\<close> to the nearest
  binary32 number: to a multiple of \<open>2 ^ (e - 23)\<close>, where \<open>e\<close> is the exponent of
  \<open>x\<close>, and of \<open>2 ^ (- 149)\<close> in the subnormal range. Overflow is left out: the scores
  never exceed 1.2 times a confidence.
\<close>

fun binade :: "nat \<Rightarrow> real \<Rightarrow> int" where
  "binade 0 x = 0"
| "binade (Suc n) x =
     (if 2 \<le> x then binade n (x / 2) + 1
      else if x < 1 then binade n (x * 2) - 1
      else 0)"

definition round_even :: "real \<Rightarrow> int" where
  "round_even y =
     (let n = \<lfloor>y\<rfloor>; r = y - of_int n in
      if r < 1 / 2 then n
      else if 1 / 2 < r then n + 1
      else if even n then n else n + 1)"

definition f32 :: "real \<Rightarrow> real" where
  "f32 x =
     (if x = 0 then 0
      else let e = max (binade 300 \<bar>x\<bar>) (- 126); q = 2 powi (e - 23)
           in of_int (round_even (x / q)) * q)"

text \<open>
  \<open>textSimilarity\<close> as the program computes it: the literal is \<^verbatim>\<open>0.9f\<close>; in
  \<^verbatim>\<open>(float)matches / std::max(...)\<close> the count and the length are converted to
  \<^verbatim>\<open>float\<close> and the quotient is rounded.
\<close>

definition textSimilarity_f32 :: "string \<Rightarrow> string \<Rightarrow> real" where
  "textSimilarity_f32 a b =
     (let lowerA = map tolower a; lowerB = map tolower b in
      if string_find lowerA lowerB \<noteq> None \<or> string_find lowerB lowerA \<noteq> None then f32 0.9
      else f32 (f32 (real (count_matches lowerA lowerB 0)) /
                f32 (real (max (length lowerA) (length lowerB)))))"

text \<open>
  The loop body of \<open>findBestMatch\<close> (lines 298 to 304): \<^verbatim>\<open>score *= 1.2f\<close> and
  \<^verbatim>\<open>score *= (elem.confidence / 100.0f)\<close> are one rounded product each, of a rounded
  quotient in the second. The member \<^verbatim>\<open>confidence\<close> is a \<^verbatim>\<open>float\<close>: it holds the binary32
  value of the confidence.
\<close>

definition elem_score_f32 :: "UIElement \<Rightarrow> string \<Rightarrow> real" where
  "elem_score_f32 elem query =
     (let score = textSimilarity_f32 (elem_text elem) query;
          score = (if elem_type elem = ''button'' then f32 (score * f32 1.2) else score)
      in f32 (score * f32 (f32 (confidence elem) / f32 100)))"

text \<open>The loop and the final test \<^verbatim>\<open>bestScore > 0.3f\<close>, on these scores.\<close>

fun best_loop_f32 ::
  "UIElement list \<Rightarrow> string \<Rightarrow> nat \<Rightarrow> nat option \<Rightarrow> real \<Rightarrow> nat option \<times> real" where
  "best_loop_f32 [] query i best bestScore = (best, bestScore)"
| "best_loop_f32 (elem # rest) query i best bestScore =
     (let score = elem_score_f32 elem query in
      if score > bestScore then best_loop_f32 rest query (Suc i) (Some i) score
      else best_loop_f32 rest query (Suc i) best bestScore)"

definition findBestMatch_f32 :: "UIElement list \<Rightarrow> string \<Rightarrow> nat option" where
  "findBestMatch_f32 elements query =
     (case best_loop_f32 elements query 0 None 0 of
        (best, bestScore) \<Rightarrow> if bestScore > f32 0.3 then best else None)"

section \<open>ScreenController and SmartMouse\<close>










section \<open>The score as the specification words it\<close>

text \<open>
  Section 4.4 of the specification, word for word, to be compared with \<open>elem_score\<close>:
  both strings are lowered; when one is a substring of the other the base score is 0.9;
  otherwise it is the number of characters of the query, counted with repetition, that
  occur in the candidate's text, divided by the larger of the two lengths. The final
  score is the base score times 1.2 for a button, times the confidence over 100.
\<close>

definition spec_base_score :: "string \<Rightarrow> string \<Rightarrow> real" where
  "spec_base_score candidate_text query =
     (let t = map tolower candidate_text; q = map tolower query in
      if sublist t q \<or> sublist q t then 0.9
      else real (length (filter (\<lambda>c. c \<in> set t) q)) /
           real (max (length candidate_text) (length query)))"

definition spec_score :: "UIElement \<Rightarrow> string \<Rightarrow> real" where
  "spec_score e query =
     spec_base_score (elem_text e) query *
     (if elem_type e = ''button'' then 1.2 else 1) * (confidence e / 100)"

section \<open>Example inputs\<close>

text \<open>
  A small world on which the theorems below are run. Images are numbered; the screen is
  image 0, and a crop of image \<open>n\<close> is image \<open>n + 1\<close>. The OCR engine finds the word
  "Submit" with confidence 90 in the box from (10, 10) to (70, 30), followed by a word
  with a null text; in every crop it reads "ab". OpenCV finds three contours, given by two
  opposite corners each: one 100 wide and 50 high, one 10 by 10, one 30 wide and 80 high.
\<close>

definition example_boundingRect :: "contour \<Rightarrow> Rect" where
  "example_boundingRect c =
     (case c of
        [(x, y), (x', y')] \<Rightarrow>
          \<lparr>rect_x = x, rect_y = y, rect_width = x' - x + 1, rect_height = y' - y + 1\<rparr>
      | _ \<Rightarrow> \<lparr>rect_x = 0, rect_y = 0, rect_width = 0, rect_height = 0\<rparr>)"

definition example_env :: "nat vision_env" where
  "example_env =
     \<lparr>ocr_iterator = (\<lambda>img. Some
         (\<lparr>word_text = Some ''Submit'', word_conf = 90,
           word_x1 = 10, word_y1 = 10, word_x2 = 70, word_y2 = 30\<rparr>,
          [\<lparr>word_text = None, word_conf = 0,
            word_x1 = 0, word_y1 = 0, word_x2 = 0, word_y2 = 0\<rparr>])),
      ocr_region_text = (\<lambda>img. Some ''ab''),
      cv_contours =
        (\<lambda>img. [[(100, 100), (199, 149)], [(0, 0), (9, 9)], [(300, 0), (329, 79)]]),
      cv_boundingRect = example_boundingRect,
      cv_roi = (\<lambda>img rect. Suc img)\<rparr>"

text \<open>An element of type "text" with a given text and confidence, in a 10 by 10 box.\<close>

definition text_candidate :: "string \<Rightarrow> real \<Rightarrow> UIElement" where
  "text_candidate t c =
     \<lparr>bounds = \<lparr>rect_x = 0, rect_y = 0, rect_width = 10, rect_height = 10\<rparr>,
      elem_text = t, elem_type = ''text'', confidence = c\<rparr>"

text \<open>An element of type "button" with a given text and confidence.\<close>

definition button_candidate :: "string \<Rightarrow> real \<Rightarrow> UIElement" where
  "button_candidate t c =
     \<lparr>bounds = \<lparr>rect_x = 0, rect_y = 0, rect_width = 100, rect_height = 50\<rparr>,
      elem_text = t, elem_type = ''button'', confidence = c\<rparr>"

text \<open>
  The same world, but the OCR engine finds a single word, a vertical bar whose box has
  the same left and right edge.
\<close>

definition degenerate_env :: "nat vision_env" where
  "degenerate_env =
     example_env\<lparr>ocr_iterator := (\<lambda>img. Some
       (\<lparr>word_text = Some ''|'', word_conf = 40,
         word_x1 = 200, word_y1 = 50, word_x2 = 200, word_y2 = 64\<rparr>, []))\<rparr>"


section \<open>Properties\<close>

subsection \<open>detectButtonRegions\<close>

lemma collect_buttons_set:
  "set (collect_buttons br cs buttons) = set buttons \<union> {r \<in> br ` set cs. button_like r}"
  by (induction cs arbitrary: buttons) (auto simp: Let_def)

lemma button_like_sint:
  "button_like r \<longleftrightarrow>
     40 < sint (rect_width r) \<and> sint (rect_width r) < 400 \<and>
     20 < sint (rect_height r) \<and> sint (rect_height r) < 100 \<and>
     sint (rect_height r) < sint (rect_width r)"
  by (simp add: button_like_def word_sless_alt)

text \<open>
  C7. Every rectangle that \<open>detectButtonRegions\<close> returns has a width strictly between
  40 and 400, a height strictly between 20 and 100, and is strictly wider than high,
  whatever the frame and whatever contours OpenCV finds in it.
\<close>

theorem detectButtonRegions_filter:
  "\<forall>r \<in> set (detectButtonRegions env img).
     40 < sint (rect_width r) \<and> sint (rect_width r) < 400 \<and>
     20 < sint (rect_height r) \<and> sint (rect_height r) < 100 \<and>
     sint (rect_height r) < sint (rect_width r)"
  by (auto simp: detectButtonRegions_def collect_buttons_set button_like_sint)

theorem detectButtonRegions_filter_witness:
  "detectButtonRegions example_env 0 =
     [\<lparr>rect_x = 100, rect_y = 100, rect_width = 100, rect_height = 50\<rparr>] \<and>
   40 < sint (100 :: int32) \<and> sint (100 :: int32) < 400 \<and>
   20 < sint (50 :: int32) \<and> sint (50 :: int32) < 100 \<and>
   sint (50 :: int32) < sint (100 :: int32)"
proof -
  have e: "detectButtonRegions example_env 0 =
     [\<lparr>rect_x = 100, rect_y = 100, rect_width = 100, rect_height = 50\<rparr>]"
    by (simp add: detectButtonRegions_def example_env_def example_boundingRect_def
        button_like_def)
  from detectButtonRegions_filter [of example_env 0] show ?thesis
    unfolding e by simp
qed

subsection \<open>textSimilarity\<close>

lemma string_find_None_iff: "string_find s str = None \<longleftrightarrow> \<not> sublist str s"
  by (induction s) (auto simp: sublist_Cons_right)

lemma string_find_char_None_iff: "string_find_char s c = None \<longleftrightarrow> c \<notin> set s"
  by (induction s) auto

lemma count_matches_filter:
  "count_matches a b n = n + length (filter (\<lambda>c. c \<in> set b) a)"
  by (induction a arbitrary: n) (auto simp: string_find_char_None_iff)

lemma count_matches_le: "count_matches a b 0 \<le> length a"
  by (simp add: count_matches_filter)

lemma nat_ratio_le_1: "m \<le> d \<Longrightarrow> real m / real d \<le> 1"
  by (cases "d = 0") (simp_all add: divide_le_eq_1)

lemma textSimilarity_le_1: "textSimilarity a b \<le> 1"
proof -
  have "count_matches (map tolower a) (map tolower b) 0 \<le> max (length a) (length b)"
    using count_matches_le [of "map tolower a" "map tolower b"] by simp
  then have "real (count_matches (map tolower a) (map tolower b) 0) /
      real (max (length a) (length b)) \<le> 1"
    by (rule nat_ratio_le_1)
  then show ?thesis by (simp add: textSimilarity_def Let_def)
qed

lemma textSimilarity_nonneg: "0 \<le> textSimilarity a b"
  by (simp add: textSimilarity_def Let_def)

text \<open>
  C10. \<open>textSimilarity\<close> returns a value between 0 and 1 for every two strings. The
  number of matches the loop counts is at most the larger of the two lengths, and
  the division is reached only when neither \<^verbatim>\<open>find\<close> succeeds, which leaves at least one
  of the lowered strings non-empty: the divisor is positive there.
\<close>

theorem textSimilarity_range:
  "0 \<le> textSimilarity a b \<and> textSimilarity a b \<le> 1 \<and>
   count_matches (map tolower a) (map tolower b) 0 \<le> max (length a) (length b) \<and>
   (string_find (map tolower a) (map tolower b) = None \<and>
    string_find (map tolower b) (map tolower a) = None \<longrightarrow>
      0 < max (length (map tolower a)) (length (map tolower b)))"
proof -
  have le: "count_matches (map tolower a) (map tolower b) 0 \<le> max (length a) (length b)"
    using count_matches_le [of "map tolower a" "map tolower b"] by simp
  have pos: "0 < max (length a) (length b)"
    if "string_find (map tolower a) (map tolower b) = None"
  proof -
    from that have "\<not> sublist (map tolower b) (map tolower a)"
      by (simp add: string_find_None_iff)
    then have "b \<noteq> []" by auto
    then show ?thesis by (cases b) simp_all
  qed
  have imp: "string_find (map tolower a) (map tolower b) = None \<and>
    string_find (map tolower b) (map tolower a) = None \<longrightarrow>
      0 < max (length (map tolower a)) (length (map tolower b))"
  proof (intro impI)
    assume "string_find (map tolower a) (map tolower b) = None \<and>
      string_find (map tolower b) (map tolower a) = None"
    then have "string_find (map tolower a) (map tolower b) = None" by blast
    from pos [OF this] show "0 < max (length (map tolower a)) (length (map tolower b))"
      by (simp only: length_map)
  qed
  from textSimilarity_nonneg [of a b] textSimilarity_le_1 [of a b] le imp
  show ?thesis by blast
qed

theorem textSimilarity_range_witness:
  "textSimilarity ''ab'' ''CA'' = 1 / 2 \<and>
   count_matches (map tolower ''ab'') (map tolower ''CA'') 0 = 1 \<and>
   string_find (map tolower ''ab'') (map tolower ''CA'') = None \<and>
   string_find (map tolower ''CA'') (map tolower ''ab'') = None \<and>
   0 < max (length (map tolower ''ab'')) (length (map tolower ''CA''))"
proof -
  have l: "map tolower ''ab'' = ''ab''" "map tolower ''CA'' = ''ca''" by code_simp+
  have n: "string_find ''ab'' ''ca'' = None" "string_find ''ca'' ''ab'' = None"
    by simp_all
  have c: "count_matches ''ab'' ''ca'' 0 = 1" by simp
  have t: "textSimilarity ''ab'' ''CA'' = 1 / 2"
    unfolding textSimilarity_def Let_def l n c by simp
  from textSimilarity_range [of "''ab''" "''CA''"] show ?thesis
    unfolding t l n c by simp
qed

subsection \<open>findBestMatch\<close>

lemma best_loop_mono: "bs \<le> snd (best_loop es q i best bs)"
proof (induction es arbitrary: i best bs)
  case Nil
  then show ?case by simp
next
  case (Cons e es)
  show ?case
  proof (cases "bs < elem_score e q")
    case True
    with Cons [of "elem_score e q" "Suc i" "Some i"] show ?thesis by simp
  next
    case False
    with Cons [of bs "Suc i" best] show ?thesis by simp
  qed
qed

lemma best_loop_upper: "e \<in> set es \<Longrightarrow> elem_score e q \<le> snd (best_loop es q i best bs)"
proof (induction es arbitrary: i best bs)
  case Nil
  then show ?case by simp
next
  case (Cons x es)
  show ?case
  proof (cases "bs < elem_score x q")
    case True
    show ?thesis
    proof (cases "e = x")
      case True
      with \<open>bs < elem_score x q\<close> best_loop_mono [of "elem_score x q" es q "Suc i" "Some i"]
      show ?thesis by simp
    next
      case False
      with Cons.prems have "e \<in> set es" by simp
      from Cons.IH [OF this, of "Suc i" "Some i" "elem_score x q"] True
      show ?thesis by simp
    qed
  next
    case False
    show ?thesis
    proof (cases "e = x")
      case True
      with False best_loop_mono [of bs es q "Suc i" best]
      show ?thesis by simp
    next
      case nx: False
      with Cons.prems have "e \<in> set es" by simp
      from Cons.IH [OF this, of "Suc i" best bs] False
      show ?thesis by simp
    qed
  qed
qed

lemma best_loop_unchanged:
  "\<forall>e \<in> set es. elem_score e q \<le> bs \<Longrightarrow> best_loop es q i best bs = (best, bs)"
  by (induction es arbitrary: i) (auto simp: Let_def)

lemma best_loop_first:
  "\<exists>e \<in> set es. bs < elem_score e q \<Longrightarrow>
   \<exists>k < length es. fst (best_loop es q i best bs) = Some (i + k) \<and>
     elem_score (es ! k) q = snd (best_loop es q i best bs) \<and>
     (\<forall>j < k. elem_score (es ! j) q < snd (best_loop es q i best bs))"
proof (induction es arbitrary: i best bs)
  case Nil
  then show ?case by simp
next
  case (Cons x es)
  let ?s = "elem_score x q"
  show ?case
  proof (cases "bs < ?s")
    case True
    then have step: "best_loop (x # es) q i best bs = best_loop es q (Suc i) (Some i) ?s"
      by simp
    show ?thesis
    proof (cases "\<exists>e \<in> set es. ?s < elem_score e q")
      case ex: True
      from Cons.IH [OF ex, of "Suc i" "Some i"]
      obtain k where k: "k < length es"
        "fst (best_loop es q (Suc i) (Some i) ?s) = Some (Suc i + k)"
        "elem_score (es ! k) q = snd (best_loop es q (Suc i) (Some i) ?s)"
        "\<forall>j < k. elem_score (es ! j) q < snd (best_loop es q (Suc i) (Some i) ?s)"
        by blast
      from ex obtain e where e: "e \<in> set es" "?s < elem_score e q" by blast
      from best_loop_upper [OF e(1), of q "Suc i" "Some i" ?s] e(2)
      have gt: "?s < snd (best_loop es q (Suc i) (Some i) ?s)" by simp
      have "\<forall>j < Suc k. elem_score ((x # es) ! j) q < snd (best_loop es q (Suc i) (Some i) ?s)"
        using k(4) gt by (auto simp: nth_Cons split: nat.splits)
      with k show ?thesis unfolding step
        by (intro exI [of _ "Suc k"]) simp
    next
      case False
      then have "\<forall>e \<in> set es. elem_score e q \<le> ?s" by auto
      from best_loop_unchanged [OF this, of "Suc i" "Some i"]
      show ?thesis unfolding step by (intro exI [of _ 0]) simp
    qed
  next
    case False
    then have step: "best_loop (x # es) q i best bs = best_loop es q (Suc i) best bs"
      by simp
    from False Cons.prems have ex: "\<exists>e \<in> set es. bs < elem_score e q" by auto
    from Cons.IH [OF ex, of "Suc i" best]
    obtain k where k: "k < length es"
      "fst (best_loop es q (Suc i) best bs) = Some (Suc i + k)"
      "elem_score (es ! k) q = snd (best_loop es q (Suc i) best bs)"
      "\<forall>j < k. elem_score (es ! j) q < snd (best_loop es q (Suc i) best bs)"
      by blast
    from ex obtain e where e: "e \<in> set es" "bs < elem_score e q" by blast
    from best_loop_upper [OF e(1), of q "Suc i" best bs] e(2) False
    have gt: "?s < snd (best_loop es q (Suc i) best bs)" by simp
    have "\<forall>j < Suc k. elem_score ((x # es) ! j) q < snd (best_loop es q (Suc i) best bs)"
      using k(4) gt by (auto simp: nth_Cons split: nat.splits)
    with k show ?thesis unfolding step
      by (intro exI [of _ "Suc k"]) simp
  qed
qed


lemma findBestMatch_alt:
  "findBestMatch es q =
     (if 0.3 < snd (best_loop es q 0 None 0) then fst (best_loop es q 0 None 0) else None)"
  by (simp add: findBestMatch_def case_prod_beta)

lemma findBestMatch_None:
  assumes "\<forall>e \<in> set es. elem_score e q \<le> 0.3"
  shows "findBestMatch es q = None"
proof (cases "\<exists>e \<in> set es. 0 < elem_score e q")
  case True
  from best_loop_first [OF True, where i = 0 and best = None]
  obtain k where k: "k < length es"
    "elem_score (es ! k) q = snd (best_loop es q 0 None 0)"
    by blast
  from k(1) assms have "elem_score (es ! k) q \<le> 0.3" by simp
  with k(2) show ?thesis
    by (simp add: findBestMatch_alt)
next
  case False
  then have "\<forall>e \<in> set es. elem_score e q \<le> 0" by auto
  from best_loop_unchanged [OF this, of 0 None]
  show ?thesis by (simp add: findBestMatch_alt)
qed

lemma findBestMatch_Some:
  assumes "\<exists>e \<in> set es. 0.3 < elem_score e q"
  shows "\<exists>k < length es. findBestMatch es q = Some k \<and> 0.3 < elem_score (es ! k) q \<and>
    (\<forall>e \<in> set es. elem_score e q \<le> elem_score (es ! k) q) \<and>
    (\<forall>j < k. elem_score (es ! j) q < elem_score (es ! k) q)"
proof -
  from assms obtain e where e: "e \<in> set es" "0.3 < elem_score e q" by blast
  then have "\<exists>e \<in> set es. 0 < elem_score e q" by force
  from best_loop_first [OF this, where i = 0 and best = None]
  obtain k where k: "k < length es"
    "fst (best_loop es q 0 None 0) = Some k"
    "elem_score (es ! k) q = snd (best_loop es q 0 None 0)"
    "\<forall>j < k. elem_score (es ! j) q < snd (best_loop es q 0 None 0)"
    by auto
  have up: "\<forall>e \<in> set es. elem_score e q \<le> elem_score (es ! k) q"
    using best_loop_upper [of _ es q 0 None 0] k(3) by simp
  with e have gt: "0.3 < elem_score (es ! k) q" by force
  have "findBestMatch es q = Some k"
    using k(2,3) gt by (simp add: findBestMatch_alt)
  with k(1,3,4) up gt show ?thesis by auto
qed

lemma findBestMatch_SomeD:
  assumes "findBestMatch es q = Some k"
  shows "k < length es \<and> 0.3 < elem_score (es ! k) q"
proof (cases "\<exists>e \<in> set es. 0.3 < elem_score e q")
  case True
  from findBestMatch_Some [OF True] assms show ?thesis by auto
next
  case False
  then have "\<forall>e \<in> set es. elem_score e q \<le> 0.3" by auto
  from findBestMatch_None [OF this] assms show ?thesis by simp
qed

subsection \<open>Scores of single elements\<close>

lemma string_find_empty: "string_find s [] = Some 0"
  by (cases s) simp_all

lemma textSimilarity_empty_query: "textSimilarity t [] = 0.9"
  by (simp add: textSimilarity_def string_find_empty)

lemma textSimilarity_empty_text: "textSimilarity [] q = 0.9"
  by (simp add: textSimilarity_def string_find_empty)

lemma textSimilarity_eq:
  "textSimilarity a b =
     (if sublist (map tolower b) (map tolower a) \<or> sublist (map tolower a) (map tolower b)
      then 0.9
      else real (length (filter (\<lambda>c. c \<in> set (map tolower b)) (map tolower a))) /
           real (max (length a) (length b)))"
  by (simp add: textSimilarity_def Let_def string_find_None_iff count_matches_filter)

text \<open>
  C9. With the empty query every text has similarity 0.9, since \<^verbatim>\<open>find\<close> of the empty
  string succeeds at position 0. So an element that is not a button and whose confidence
  is above 100/3 scores above 0.3 against the empty query, and \<open>findBestMatch\<close> then
  returns an element (one scoring above 0.3) instead of the null pointer.
\<close>

theorem empty_query_matches:
  "textSimilarity t [] = 0.9 \<and>
   (e \<in> set es \<and> elem_type e \<noteq> ''button'' \<and> 100 / 3 < confidence e \<longrightarrow>
      0.3 < elem_score e [] \<and>
      (\<exists>k < length es. findBestMatch es [] = Some k \<and> 0.3 < elem_score (es ! k) []))"
proof (intro conjI impI)
  show "textSimilarity t [] = 0.9" by (rule textSimilarity_empty_query)
next
  assume h: "e \<in> set es \<and> elem_type e \<noteq> ''button'' \<and> 100 / 3 < confidence e"
  then show gt: "0.3 < elem_score e []"
    by (simp add: elem_score_def textSimilarity_empty_query)
  with h have "\<exists>e \<in> set es. 0.3 < elem_score e []" by blast
  from findBestMatch_Some [OF this]
  show "\<exists>k < length es. findBestMatch es [] = Some k \<and> 0.3 < elem_score (es ! k) []"
    by blast
qed

theorem empty_query_matches_witness:
  "textSimilarity ''Cancel'' [] = 0.9 \<and>
   elem_score (text_candidate ''Cancel'' 34) [] = 0.306 \<and>
   findBestMatch [text_candidate ''Cancel'' 34] [] = Some 0"
proof -
  let ?e = "text_candidate ''Cancel'' 34"
  have h: "?e \<in> set [?e] \<and> elem_type ?e \<noteq> ''button'' \<and> 100 / 3 < confidence ?e"
    by (simp add: text_candidate_def)
  from empty_query_matches [of "''Cancel''" ?e "[?e]"] h
  have t: "textSimilarity ''Cancel'' [] = 0.9"
    and "\<exists>k < length [?e]. findBestMatch [?e] [] = Some k \<and> 0.3 < elem_score ([?e] ! k) []"
    by blast+
  then have f: "findBestMatch [?e] [] = Some 0" by auto
  have s: "elem_score ?e [] = 0.306"
    by (simp add: elem_score_def textSimilarity_empty_query text_candidate_def)
  from t s f show ?thesis by simp
qed

text \<open>
  C2 as stated fails: for the element with the empty text, type "text" and confidence 95,
  and the query "OK", the similarity is 0.9 and not 0, the score is 0.855, and
  \<open>findBestMatch\<close> returns the element.
\<close>

theorem empty_text_counterexample:
  "textSimilarity [] ''OK'' = 0.9 \<and> textSimilarity [] ''OK'' \<noteq> 0 \<and>
   elem_score (text_candidate [] 95) ''OK'' = 0.855 \<and>
   findBestMatch [text_candidate [] 95] ''OK'' = Some 0"
  by (simp add: findBestMatch_def elem_score_def textSimilarity_empty_text text_candidate_def)

text \<open>
  C2, amended. An element with the empty text has similarity 0.9 with every query: the
  empty string is found in every string, so the substring branch is taken and the
  character count is never reached. With a type other than "button" and confidence 95
  its score is 0.9 * 0.95 = 0.855, above the threshold, and \<open>findBestMatch\<close> on this
  element alone returns it.
\<close>

theorem empty_text_matches:
  "elem_text e = [] \<longrightarrow>
     textSimilarity (elem_text e) q = 0.9 \<and>
     (elem_type e \<noteq> ''button'' \<and> confidence e = 95 \<longrightarrow>
        elem_score e q = 0.855 \<and> findBestMatch [e] q = Some 0)"
  by (simp add: findBestMatch_def elem_score_def textSimilarity_empty_text)

theorem empty_text_matches_witness:
  "elem_text (text_candidate [] 95) = [] \<and>
   textSimilarity (elem_text (text_candidate [] 95)) ''OK'' = 0.9 \<and>
   elem_score (text_candidate [] 95) ''OK'' = 0.855 \<and>
   findBestMatch [text_candidate [] 95] ''OK'' = Some 0"
proof -
  let ?e = "text_candidate [] 95"
  have h: "elem_text ?e = []" "elem_type ?e \<noteq> ''button'' \<and> confidence ?e = 95"
    by (simp_all add: text_candidate_def)
  from empty_text_matches [of ?e "''OK''"] h show ?thesis by blast
qed

text \<open>
  C1, amended. The score of an element is 0.9 when one lowered string is a substring of
  the other, and otherwise the number of characters of the element's text, counted
  with repetition, that occur in the query, divided by the larger of the two lengths;
  this times 1.2 for a button, times the confidence over 100. The characters counted
  are those of the element's text, not those of the query.
\<close>

theorem elem_score_formula:
  "elem_score e q =
     (if sublist (map tolower q) (map tolower (elem_text e)) \<or>
         sublist (map tolower (elem_text e)) (map tolower q)
      then 0.9
      else real (length (filter (\<lambda>c. c \<in> set (map tolower q)) (map tolower (elem_text e)))) /
           real (max (length (elem_text e)) (length q))) *
     (if elem_type e = ''button'' then 1.2 else 1) * (confidence e / 100)"
  by (simp add: elem_score_def Let_def textSimilarity_eq)

theorem elem_score_formula_witness:
  "elem_score (text_candidate ''aab'' 100) ''ac'' = 2 / 3"
proof -
  let ?e = "text_candidate ''aab'' 100"
  have rhs: "(if sublist (map tolower ''ac'') (map tolower (elem_text ?e)) \<or>
         sublist (map tolower (elem_text ?e)) (map tolower ''ac'')
      then 0.9
      else real (length (filter (\<lambda>c. c \<in> set (map tolower ''ac''))
                  (map tolower (elem_text ?e)))) /
           real (max (length (elem_text ?e)) (length ''ac''))) *
     (if elem_type ?e = ''button'' then 1.2 else 1) * (confidence ?e / 100) = 2 / 3"
    by code_simp
  show ?thesis
    unfolding elem_score_formula [of ?e "''ac''"] by (rule rhs)
qed

text \<open>
  C1 as stated fails: for the text "aab" and the query "ac" neither string contains the
  other; two characters of the text occur in the query, which gives 2/3, while one
  character of the query occurs in the text, which gives the 1/3 of the specification.
\<close>

theorem spec_score_counterexample:
  "elem_score (text_candidate ''aab'' 100) ''ac'' = 2 / 3 \<and>
   spec_score (text_candidate ''aab'' 100) ''ac'' = 1 / 3 \<and>
   elem_score (text_candidate ''aab'' 100) ''ac'' \<noteq>
     spec_score (text_candidate ''aab'' 100) ''ac''"
proof -
  have c: "elem_score (text_candidate ''aab'' 100) ''ac'' = 2 / 3" by code_simp
  have s: "spec_score (text_candidate ''aab'' 100) ''ac'' = 1 / 3" by code_simp
  from c s show ?thesis by simp
qed

subsection \<open>analyzeScreen\<close>

lemma collect_buttons_eq:
  "collect_buttons br cs buttons = buttons @ filter button_like (map br cs)"
  by (induction cs arbitrary: buttons) (simp_all add: Let_def)

lemma append_buttons_eq:
  "append_buttons env img rects allElements =
     allElements @ map (button_element env img) rects"
  by (induction rects arbitrary: allElements) simp_all

lemma append_word_set:
  "set (append_word w elements) =
     set elements \<union> {word_element w t | t. word_text w = Some t}"
  by (auto simp: append_word_def split: option.splits)

lemma drain_words_set:
  "set (drain_words w rest elements) =
     set elements \<union> {word_element v t | v t. v \<in> set (w # rest) \<and> word_text v = Some t}"
  by (induction rest arbitrary: w elements) (auto simp: append_word_set)

lemma detectTextRegions_set:
  "set (detectTextRegions env img) =
     {word_element v t | v t. v \<in> set (ocr_words env img) \<and> word_text v = Some t}"
  by (auto simp: detectTextRegions_def ocr_words_def drain_words_set split: option.splits)

lemma analyzeScreen_eq:
  "analyzeScreen env img =
     detectTextRegions env img @
     map (button_element env img) (detectButtonRegions env img)"
  by (simp add: analyzeScreen_def append_buttons_eq)

lemma analyzeScreen_cases:
  assumes "e \<in> set (analyzeScreen env img)"
  shows "(\<exists>v t. v \<in> set (ocr_words env img) \<and> word_text v = Some t \<and> e = word_element v t) \<or>
         (\<exists>r \<in> set (detectButtonRegions env img). e = button_element env img r)"
  using assms by (auto simp: analyzeScreen_eq detectTextRegions_set)

lemma word_element_type: "elem_type (word_element v t) = ''text''"
  by (simp add: word_element_def)

lemma analyzeScreen_button:
  assumes "e \<in> set (analyzeScreen env img)" "elem_type e = ''button''"
  shows "\<exists>r \<in> set (detectButtonRegions env img). e = button_element env img r"
  using analyzeScreen_cases [OF assms(1)] assms(2) by (auto simp: word_element_type)

lemma button_score_bound:
  assumes "elem_type e = ''button''" "confidence e = 0.7"
  shows "elem_score e q \<le> 0.0084"
proof -
  have "elem_score e q = textSimilarity (elem_text e) q * 0.0084"
    using assms by (simp add: elem_score_def)
  also have "\<dots> \<le> 1 * 0.0084"
    by (intro mult_right_mono textSimilarity_le_1) simp
  finally show ?thesis by simp
qed

text \<open>What \<open>analyzeScreen\<close> returns in the example world.\<close>

lemma example_screen:
  "analyzeScreen example_env 0 =
     [\<lparr>bounds = \<lparr>rect_x = 10, rect_y = 10, rect_width = 60, rect_height = 20\<rparr>,
       elem_text = ''Submit'', elem_type = ''text'', confidence = 90\<rparr>,
      \<lparr>bounds = \<lparr>rect_x = 100, rect_y = 100, rect_width = 100, rect_height = 50\<rparr>,
       elem_text = ''ab'', elem_type = ''button'', confidence = 0.7\<rparr>]"
  by code_simp

text \<open>
  C3, amended. Every element of type "button" that \<open>analyzeScreen\<close> produces has
  confidence 0.7, which \<open>findBestMatch\<close> divides by 100; the similarity is at most 1 (and
  it is 1 for some texts), so the score is at most 1 * 1.2 * 0.007 = 0.0084 and below the
  threshold 0.3. Hence \<open>findBestMatch\<close> never returns a button of the elements that
  \<open>analyzeScreen\<close> produced, whatever the frame, the OCR results and the query.
\<close>

theorem button_never_matches:
  "(\<forall>e \<in> set (analyzeScreen env img).
      elem_type e = ''button'' \<longrightarrow>
        confidence e = 0.7 \<and> elem_score e q \<le> 0.0084 \<and> elem_score e q < 0.3) \<and>
   (\<forall>k. findBestMatch (analyzeScreen env img) q = Some k \<longrightarrow>
      elem_type (analyzeScreen env img ! k) \<noteq> ''button'')"
proof -
  have a: "confidence e = 0.7 \<and> elem_score e q \<le> 0.0084 \<and> elem_score e q < 0.3"
    if "e \<in> set (analyzeScreen env img)" "elem_type e = ''button''" for e
  proof -
    from analyzeScreen_button [OF that] have c: "confidence e = 0.7"
      by (auto simp: button_element_def)
    from button_score_bound [OF that(2) c, of q] c show ?thesis by simp
  qed
  have b: "elem_type (analyzeScreen env img ! k) \<noteq> ''button''"
    if "findBestMatch (analyzeScreen env img) q = Some k" for k
  proof
    assume t: "elem_type (analyzeScreen env img ! k) = ''button''"
    from findBestMatch_SomeD [OF that]
    have k: "k < length (analyzeScreen env img)"
      "0.3 < elem_score (analyzeScreen env img ! k) q" by simp_all
    from k(1) have "analyzeScreen env img ! k \<in> set (analyzeScreen env img)" by simp
    from a [OF this t] k(2) show False by simp
  qed
  from a b show ?thesis by blast
qed

theorem button_never_matches_witness:
  "elem_type (analyzeScreen example_env 0 ! 1) = ''button'' \<and>
   confidence (analyzeScreen example_env 0 ! 1) = 0.7 \<and>
   elem_score (analyzeScreen example_env 0 ! 1) ''submit'' \<le> 0.0084 \<and>
   findBestMatch (analyzeScreen example_env 0) ''submit'' = Some 0 \<and>
   elem_type (analyzeScreen example_env 0 ! 0) \<noteq> ''button''"
proof -
  let ?es = "analyzeScreen example_env 0"
  have t: "elem_type (?es ! 1) = ''button''" by (simp add: example_screen)
  have m: "?es ! 1 \<in> set ?es" by (simp add: example_screen)
  have f: "findBestMatch ?es ''submit'' = Some 0" by code_simp
  from button_never_matches [of example_env 0 "''submit''"] t m f
  show ?thesis by blast
qed

text \<open>
  C3 as stated fails in its bound: the button that \<open>analyzeScreen\<close> builds in the example
  world carries the text "ab"; against the query "ba" neither string contains the other,
  both characters match, the similarity is 1 and the score 0.0084, above
  0.9 * 1.2 * 0.007 = 0.00756.
\<close>

theorem button_score_counterexample:
  "analyzeScreen example_env 0 ! 1 \<in> set (analyzeScreen example_env 0) \<and>
   elem_type (analyzeScreen example_env 0 ! 1) = ''button'' \<and>
   elem_score (analyzeScreen example_env 0 ! 1) ''ba'' = 0.0084 \<and>
   0.9 * 1.2 * 0.007 < elem_score (analyzeScreen example_env 0 ! 1) ''ba''"
proof -
  let ?es = "analyzeScreen example_env 0"
  have t: "elem_type (?es ! 1) = ''button''" by (simp add: example_screen)
  have m: "?es ! 1 \<in> set ?es" by (simp add: example_screen)
  have s: "elem_score (?es ! 1) ''ba'' = 0.0084" by code_simp
  from t m s show ?thesis by simp
qed

lemma int32_diff_pos:
  fixes x1 x2 :: int32
  assumes "0 \<le>s x1" "x1 <s x2"
  shows "0 <s x2 - x1"
proof -
  have a: "0 \<le> sint x1" using assms(1) by (simp add: word_sle_eq)
  have b: "sint x1 < sint x2" using assms(2) by (simp add: word_sless_alt)
  have c: "sint x2 < 2 ^ 31" using sint_lt [of x2] by simp
  have "sint (x2 - x1) = signed_take_bit 31 (sint x2 - sint x1)"
    by (simp add: sint_word_diff)
  also have "\<dots> = sint x2 - sint x1"
    using a b c by (simp add: signed_take_bit_int_eq_self)
  finally show ?thesis using b by (simp add: word_sless_alt)
qed

lemma detectButtonRegions_button_like:
  "r \<in> set (detectButtonRegions env img) \<Longrightarrow> button_like r"
  by (auto simp: detectButtonRegions_def collect_buttons_eq)

lemma button_like_pos: "button_like r \<Longrightarrow> 0 <s rect_width r \<and> 0 <s rect_height r"
  by (simp add: button_like_def word_sless_alt)

text \<open>
  C6, amended. Every element of type "button" has a width above 40 and a height above
  20, so both are positive. An element of type "text" carries the box of its word as the
  OCR engine reported it, of width \<open>x2 - x1\<close> and height \<open>y2 - y1\<close>, and nothing filters
  it: when every word with a text has a box with \<open>0 \<le> x1 < x2\<close> and \<open>0 \<le> y1 < y2\<close>,
  every element that \<open>analyzeScreen\<close> returns has a positive width and height.
\<close>

theorem analyzeScreen_bounds:
  "(\<forall>e \<in> set (analyzeScreen env img).
      elem_type e = ''button'' \<longrightarrow>
        40 <s rect_width (bounds e) \<and> 20 <s rect_height (bounds e) \<and>
        0 <s rect_width (bounds e) \<and> 0 <s rect_height (bounds e)) \<and>
   ((\<forall>v \<in> set (ocr_words env img).
       word_text v \<noteq> None \<longrightarrow>
         0 \<le>s word_x1 v \<and> word_x1 v <s word_x2 v \<and>
         0 \<le>s word_y1 v \<and> word_y1 v <s word_y2 v) \<longrightarrow>
    (\<forall>e \<in> set (analyzeScreen env img).
       0 <s rect_width (bounds e) \<and> 0 <s rect_height (bounds e)))"
proof (intro conjI impI ballI)
  fix e
  assume e: "e \<in> set (analyzeScreen env img)" and t: "elem_type e = ''button''"
  from analyzeScreen_button [OF e t] obtain r
    where r: "r \<in> set (detectButtonRegions env img)" "e = button_element env img r"
    by blast
  from r have bl: "button_like (bounds e)"
    by (simp add: button_element_def detectButtonRegions_button_like)
  then show "40 <s rect_width (bounds e)" "20 <s rect_height (bounds e)"
    by (simp_all add: button_like_def)
  from bl show "0 <s rect_width (bounds e)" "0 <s rect_height (bounds e)"
    by (simp_all add: button_like_pos)
next
  fix e
  assume boxes: "\<forall>v \<in> set (ocr_words env img).
       word_text v \<noteq> None \<longrightarrow>
         0 \<le>s word_x1 v \<and> word_x1 v <s word_x2 v \<and>
         0 \<le>s word_y1 v \<and> word_y1 v <s word_y2 v"
    and e: "e \<in> set (analyzeScreen env img)"
  from analyzeScreen_cases [OF e]
  have "0 <s rect_width (bounds e) \<and> 0 <s rect_height (bounds e)"
  proof (elim disjE exE conjE bexE)
    fix v t
    assume v: "v \<in> set (ocr_words env img)" "word_text v = Some t" "e = word_element v t"
    from boxes v(1,2) have "0 \<le>s word_x1 v" "word_x1 v <s word_x2 v"
      "0 \<le>s word_y1 v" "word_y1 v <s word_y2 v" by auto
    then show ?thesis
      by (simp add: v(3) word_element_def int32_diff_pos)
  next
    fix r
    assume "r \<in> set (detectButtonRegions env img)" "e = button_element env img r"
    then show ?thesis
      by (simp add: button_element_def detectButtonRegions_button_like button_like_pos)
  qed
  then show "0 <s rect_width (bounds e)" "0 <s rect_height (bounds e)" by simp_all
qed

theorem analyzeScreen_bounds_witness:
  "analyzeScreen example_env 0 =
     [\<lparr>bounds = \<lparr>rect_x = 10, rect_y = 10, rect_width = 60, rect_height = 20\<rparr>,
       elem_text = ''Submit'', elem_type = ''text'', confidence = 90\<rparr>,
      \<lparr>bounds = \<lparr>rect_x = 100, rect_y = 100, rect_width = 100, rect_height = 50\<rparr>,
       elem_text = ''ab'', elem_type = ''button'', confidence = 0.7\<rparr>] \<and>
   (0 :: int32) <s 60 \<and> (0 :: int32) <s 20 \<and> (40 :: int32) <s 100 \<and> (20 :: int32) <s 50"
proof -
  have w: "ocr_words example_env 0 =
    [\<lparr>word_text = Some ''Submit'', word_conf = 90,
      word_x1 = 10, word_y1 = 10, word_x2 = 70, word_y2 = 30\<rparr>,
     \<lparr>word_text = None, word_conf = 0,
      word_x1 = 0, word_y1 = 0, word_x2 = 0, word_y2 = 0\<rparr>]"
    by (simp add: ocr_words_def example_env_def)
  have boxes: "\<forall>v \<in> set (ocr_words example_env 0).
       word_text v \<noteq> None \<longrightarrow>
         0 \<le>s word_x1 v \<and> word_x1 v <s word_x2 v \<and>
         0 \<le>s word_y1 v \<and> word_y1 v <s word_y2 v"
    unfolding w by (simp add: word_sle_eq)
  from analyzeScreen_bounds [of example_env 0] boxes
  have "\<forall>e \<in> set (analyzeScreen example_env 0).
       0 <s rect_width (bounds e) \<and> 0 <s rect_height (bounds e)"
    and "\<forall>e \<in> set (analyzeScreen example_env 0).
      elem_type e = ''button'' \<longrightarrow>
        40 <s rect_width (bounds e) \<and> 20 <s rect_height (bounds e) \<and>
        0 <s rect_width (bounds e) \<and> 0 <s rect_height (bounds e)"
    by blast+
  then show ?thesis unfolding example_screen by simp
qed

text \<open>
  C6 as stated fails: in the world where the OCR engine reports a word whose box has
  the same left and right edge, \<open>analyzeScreen\<close> returns an element of width 0.
\<close>

theorem zero_width_counterexample:
  "\<lparr>bounds = \<lparr>rect_x = 200, rect_y = 50, rect_width = 0, rect_height = 14\<rparr>,
     elem_text = ''|'', elem_type = ''text'', confidence = 40\<rparr>
     \<in> set (analyzeScreen degenerate_env 0) \<and>
   \<not> (0 :: int32) <s 0"
proof -
  have "analyzeScreen degenerate_env 0 =
     [\<lparr>bounds = \<lparr>rect_x = 200, rect_y = 50, rect_width = 0, rect_height = 14\<rparr>,
       elem_text = ''|'', elem_type = ''text'', confidence = 40\<rparr>,
      \<lparr>bounds = \<lparr>rect_x = 100, rect_y = 100, rect_width = 100, rect_height = 50\<rparr>,
       elem_text = ''ab'', elem_type = ''button'', confidence = 0.7\<rparr>]"
    by code_simp
  then show ?thesis by simp
qed

subsection \<open>clickOn\<close>





subsection \<open>Rounding to binary32\<close>

lemma binade_bounds:
  "2 powi (- int n) \<le> x \<Longrightarrow> x < 2 powi (int n + 1) \<Longrightarrow>
   2 powi (binade n x) \<le> x \<and> x < 2 powi (binade n x + 1)"
proof (induction n arbitrary: x)
  case 0
  then show ?case by simp
next
  case (Suc n)
  show ?case
  proof (cases "2 \<le> x")
    case True
    have lo: "2 powi (- int n) \<le> x / 2"
    proof -
      have "(2::real) powi (- int n) \<le> 1"
        by (simp add: power_int_minus inverse_le_1_iff one_le_power)
      with True show ?thesis by simp
    qed
    have hi: "x / 2 < 2 powi (int n + 1)"
      using Suc.prems(2) by (simp add: power_int_add)
    from Suc.IH [OF lo hi] True show ?thesis
      by (simp add: power_int_add)
  next
    case False
    show ?thesis
    proof (cases "x < 1")
      case True
      have lo: "2 powi (- int n) \<le> x * 2"
        using Suc.prems(1) by (simp add: power_int_diff power_int_minus field_simps)
      have hi: "x * 2 < 2 powi (int n + 1)"
      proof -
        have "(1::real) \<le> 2 ^ n" by (simp add: one_le_power)
        with True have "x < 2 ^ n" by linarith
        then show ?thesis by (simp add: power_int_add)
      qed
      from Suc.IH [OF lo hi] True False show ?thesis
        by (simp add: power_int_diff power_int_add field_simps)
    next
      case nl: False
      with False show ?thesis by simp
    qed
  qed
qed

lemma round_even_near: "\<bar>of_int (round_even y) - y\<bar> \<le> 1 / 2"
  unfolding round_even_def Let_def by (auto simp: abs_if) linarith+

lemma powi_less_exp: "(2::real) powi a < 2 powi c \<Longrightarrow> a < c"
  using power_int_increasing [of c a "2::real"] by (cases "a < c") simp_all

lemma binade_unique:
  fixes x :: real
  assumes "2 powi a \<le> x" "x < 2 powi (a + 1)" "2 powi b \<le> x" "x < 2 powi (b + 1)"
  shows "a = b"
proof -
  from assms(1,4) have "(2::real) powi a < 2 powi (b + 1)" by simp
  then have "a < b + 1" by (rule powi_less_exp)
  moreover from assms(3,2) have "(2::real) powi b < 2 powi (a + 1)" by simp
  then have "b < a + 1" by (rule powi_less_exp)
  ultimately show ?thesis by simp
qed

lemma round_even_of_int: "round_even (of_int m) = m"
  by (simp add: round_even_def)

lemma f32_error:
  "\<bar>f32 x - x\<bar> \<le> 2 powi (max (binade 300 \<bar>x\<bar>) (- 126) - 24)"
proof (cases "x = 0")
  case True
  then show ?thesis by (simp add: f32_def)
next
  case False
  define e where "e = max (binade 300 \<bar>x\<bar>) (- 126)"
  define q :: real where "q = 2 powi (e - 23)"
  have q: "0 < q" by (simp add: q_def)
  have "f32 x - x = (of_int (round_even (x / q)) - x / q) * q"
    using False q by (simp add: f32_def e_def q_def Let_def algebra_simps)
  then have "\<bar>f32 x - x\<bar> = \<bar>of_int (round_even (x / q)) - x / q\<bar> * q"
    using q by (simp add: abs_mult)
  also have "\<dots> \<le> 1 / 2 * q"
    using round_even_near [of "x / q"] q by (intro mult_right_mono) simp_all
  also have "1 / 2 * q = 2 powi (e - 24)"
    by (simp add: q_def power_int_diff)
  finally show ?thesis by (simp add: e_def)
qed

lemma f32_normal:
  assumes m: "2 ^ 23 \<le> \<bar>m\<bar>" "\<bar>m\<bar> < 2 ^ 24" and e: "- 126 \<le> e" "e \<le> 127"
  shows "f32 (of_int m * 2 powi (e - 23)) = of_int m * 2 powi (e - 23)"
proof -
  define x :: real where "x = of_int m * 2 powi (e - 23)"
  have ax: "\<bar>x\<bar> = of_int \<bar>m\<bar> * 2 powi (e - 23)"
    by (simp add: x_def abs_mult)
  have m1: "(2::real) ^ 23 \<le> of_int \<bar>m\<bar>"
    using m(1) by (metis of_int_le_iff of_int_numeral of_int_power)
  have m2: "of_int \<bar>m\<bar> < (2::real) ^ 24"
    using m(2) by (metis of_int_less_iff of_int_numeral of_int_power)
  have lo: "2 powi e \<le> \<bar>x\<bar>"
  proof -
    have "(2::real) powi e = 2 ^ 23 * 2 powi (e - 23)"
      by (simp add: power_int_diff)
    also have "\<dots> \<le> of_int \<bar>m\<bar> * 2 powi (e - 23)"
      using m1 by (intro mult_right_mono) simp_all
    finally show ?thesis by (simp add: ax)
  qed
  have hi: "\<bar>x\<bar> < 2 powi (e + 1)"
  proof -
    have "of_int \<bar>m\<bar> * 2 powi (e - 23) < (2::real) ^ 24 * 2 powi (e - 23)"
      using m2 by (intro mult_strict_right_mono) simp_all
    also have "\<dots> = 2 powi (e + 1)"
      by (simp add: power_int_diff power_int_add)
    finally show ?thesis by (simp add: ax)
  qed
  have "(2::real) powi (- int 300) \<le> 2 powi e"
    using e by (intro power_int_increasing) simp_all
  with lo have a: "2 powi (- int 300) \<le> \<bar>x\<bar>" by linarith
  have "(2::real) powi (e + 1) \<le> 2 powi (int 300 + 1)"
    using e by (intro power_int_increasing) simp_all
  with hi have b: "\<bar>x\<bar> < 2 powi (int 300 + 1)" by linarith
  from binade_bounds [OF a b] lo hi have "binade 300 \<bar>x\<bar> = e"
    using binade_unique [of "binade 300 \<bar>x\<bar>" "\<bar>x\<bar>" e] by blast
  moreover have "x \<noteq> 0"
  proof -
    have "0 < (2::real) powi e" by simp
    with lo have "0 < \<bar>x\<bar>" by linarith
    then show ?thesis by simp
  qed
  moreover have "x / 2 powi (e - 23) = of_int m" by (simp add: x_def)
  ultimately have "f32 x = x"
    using e by (simp add: f32_def Let_def round_even_of_int max_def) (simp add: x_def)
  then show ?thesis by (simp add: x_def)
qed

lemma f32_subnormal:
  assumes m: "\<bar>m\<bar> < 2 ^ 23"
  shows "f32 (of_int m * 2 powi (- 149)) = of_int m * 2 powi (- 149)"
proof (cases "m = 0")
  case True
  then show ?thesis by (simp add: f32_def)
next
  case False
  define x :: real where "x = of_int m * 2 powi (- 149)"
  have ax: "\<bar>x\<bar> = of_int \<bar>m\<bar> * 2 powi (- 149)"
    by (simp add: x_def abs_mult)
  have m1: "(1::real) \<le> of_int \<bar>m\<bar>"
  proof -
    from False have "1 \<le> \<bar>m\<bar>" by simp
    then show ?thesis by (simp only: of_int_1_le_iff)
  qed
  have m2: "of_int \<bar>m\<bar> < (2::real) ^ 23"
    using m by (metis of_int_less_iff of_int_numeral of_int_power)
  have lo: "2 powi (- 149) \<le> \<bar>x\<bar>"
  proof -
    have "1 * 2 powi (- 149) \<le> of_int \<bar>m\<bar> * (2::real) powi (- 149)"
      using m1 by (intro mult_right_mono) simp_all
    then show ?thesis by (simp add: ax)
  qed
  have hi: "\<bar>x\<bar> < 2 powi (- 126)"
  proof -
    have "of_int \<bar>m\<bar> * 2 powi (- 149) < (2::real) ^ 23 * 2 powi (- 149)"
      using m2 by (intro mult_strict_right_mono) simp_all
    also have "\<dots> = 2 powi (23 + (- 149))"
      by (subst power_int_add) simp_all
    finally show ?thesis by (simp add: ax)
  qed
  have "(2::real) powi (- int 300) \<le> 2 powi (- 149)"
    by (intro power_int_increasing) simp_all
  with lo have a: "2 powi (- int 300) \<le> \<bar>x\<bar>" by linarith
  have "(2::real) powi (- 126) \<le> 2 powi (int 300 + 1)"
    by (intro power_int_increasing) simp_all
  with hi have b: "\<bar>x\<bar> < 2 powi (int 300 + 1)" by linarith
  from binade_bounds [OF a b] hi have "(2::real) powi binade 300 \<bar>x\<bar> < 2 powi (- 126)"
    by linarith
  then have "binade 300 \<bar>x\<bar> < - 126" by (rule powi_less_exp)
  then have mx: "max (binade 300 \<bar>x\<bar>) (- 126) = - 126" by simp
  have nz: "x \<noteq> 0" using False by (simp add: x_def)
  have "x / 2 powi (- 126 - 23) = of_int m" by (simp add: x_def)
  then have "f32 x = x"
    using nz by (simp add: f32_def Let_def mx round_even_of_int)
  then show ?thesis by (simp add: x_def)
qed

text \<open>The threshold \<^verbatim>\<open>0.3f\<close>.\<close>

lemma f32_threshold: "f32 0.3 = 5033165 / 16777216"
  by code_simp

lemma f32_threshold_pos: "0 < f32 0.3"
  by (simp add: f32_threshold)

subsection \<open>findBestMatch in binary32\<close>

lemma best_loop_f32_mono: "bs \<le> snd (best_loop_f32 es q i best bs)"
proof (induction es arbitrary: i best bs)
  case Nil
  then show ?case by simp
next
  case (Cons e es)
  show ?case
  proof (cases "bs < elem_score_f32 e q")
    case True
    with Cons [of "elem_score_f32 e q" "Suc i" "Some i"] show ?thesis by simp
  next
    case False
    with Cons [of bs "Suc i" best] show ?thesis by simp
  qed
qed

lemma best_loop_f32_upper: "e \<in> set es \<Longrightarrow> elem_score_f32 e q \<le> snd (best_loop_f32 es q i best bs)"
proof (induction es arbitrary: i best bs)
  case Nil
  then show ?case by simp
next
  case (Cons x es)
  show ?case
  proof (cases "bs < elem_score_f32 x q")
    case True
    show ?thesis
    proof (cases "e = x")
      case True
      with \<open>bs < elem_score_f32 x q\<close> best_loop_f32_mono [of "elem_score_f32 x q" es q "Suc i" "Some i"]
      show ?thesis by simp
    next
      case False
      with Cons.prems have "e \<in> set es" by simp
      from Cons.IH [OF this, of "Suc i" "Some i" "elem_score_f32 x q"] True
      show ?thesis by simp
    qed
  next
    case False
    show ?thesis
    proof (cases "e = x")
      case True
      with False best_loop_f32_mono [of bs es q "Suc i" best]
      show ?thesis by simp
    next
      case nx: False
      with Cons.prems have "e \<in> set es" by simp
      from Cons.IH [OF this, of "Suc i" best bs] False
      show ?thesis by simp
    qed
  qed
qed

lemma best_loop_f32_unchanged:
  "\<forall>e \<in> set es. elem_score_f32 e q \<le> bs \<Longrightarrow> best_loop_f32 es q i best bs = (best, bs)"
  by (induction es arbitrary: i) (auto simp: Let_def)

lemma best_loop_f32_first:
  "\<exists>e \<in> set es. bs < elem_score_f32 e q \<Longrightarrow>
   \<exists>k < length es. fst (best_loop_f32 es q i best bs) = Some (i + k) \<and>
     elem_score_f32 (es ! k) q = snd (best_loop_f32 es q i best bs) \<and>
     (\<forall>j < k. elem_score_f32 (es ! j) q < snd (best_loop_f32 es q i best bs))"
proof (induction es arbitrary: i best bs)
  case Nil
  then show ?case by simp
next
  case (Cons x es)
  let ?s = "elem_score_f32 x q"
  show ?case
  proof (cases "bs < ?s")
    case True
    then have step: "best_loop_f32 (x # es) q i best bs = best_loop_f32 es q (Suc i) (Some i) ?s"
      by simp
    show ?thesis
    proof (cases "\<exists>e \<in> set es. ?s < elem_score_f32 e q")
      case ex: True
      from Cons.IH [OF ex, of "Suc i" "Some i"]
      obtain k where k: "k < length es"
        "fst (best_loop_f32 es q (Suc i) (Some i) ?s) = Some (Suc i + k)"
        "elem_score_f32 (es ! k) q = snd (best_loop_f32 es q (Suc i) (Some i) ?s)"
        "\<forall>j < k. elem_score_f32 (es ! j) q < snd (best_loop_f32 es q (Suc i) (Some i) ?s)"
        by blast
      from ex obtain e where e: "e \<in> set es" "?s < elem_score_f32 e q" by blast
      from best_loop_f32_upper [OF e(1), of q "Suc i" "Some i" ?s] e(2)
      have gt: "?s < snd (best_loop_f32 es q (Suc i) (Some i) ?s)" by simp
      have "\<forall>j < Suc k. elem_score_f32 ((x # es) ! j) q < snd (best_loop_f32 es q (Suc i) (Some i) ?s)"
        using k(4) gt by (auto simp: nth_Cons split: nat.splits)
      with k show ?thesis unfolding step
        by (intro exI [of _ "Suc k"]) simp
    next
      case False
      then have "\<forall>e \<in> set es. elem_score_f32 e q \<le> ?s" by auto
      from best_loop_f32_unchanged [OF this, of "Suc i" "Some i"]
      show ?thesis unfolding step by (intro exI [of _ 0]) simp
    qed
  next
    case False
    then have step: "best_loop_f32 (x # es) q i best bs = best_loop_f32 es q (Suc i) best bs"
      by simp
    from False Cons.prems have ex: "\<exists>e \<in> set es. bs < elem_score_f32 e q" by auto
    from Cons.IH [OF ex, of "Suc i" best]
    obtain k where k: "k < length es"
      "fst (best_loop_f32 es q (Suc i) best bs) = Some (Suc i + k)"
      "elem_score_f32 (es ! k) q = snd (best_loop_f32 es q (Suc i) best bs)"
      "\<forall>j < k. elem_score_f32 (es ! j) q < snd (best_loop_f32 es q (Suc i) best bs)"
      by blast
    from ex obtain e where e: "e \<in> set es" "bs < elem_score_f32 e q" by blast
    from best_loop_f32_upper [OF e(1), of q "Suc i" best bs] e(2) False
    have gt: "?s < snd (best_loop_f32 es q (Suc i) best bs)" by simp
    have "\<forall>j < Suc k. elem_score_f32 ((x # es) ! j) q < snd (best_loop_f32 es q (Suc i) best bs)"
      using k(4) gt by (auto simp: nth_Cons split: nat.splits)
    with k show ?thesis unfolding step
      by (intro exI [of _ "Suc k"]) simp
  qed
qed


lemma findBestMatch_f32_alt:
  "findBestMatch_f32 es q =
     (if f32 0.3 < snd (best_loop_f32 es q 0 None 0) then fst (best_loop_f32 es q 0 None 0) else None)"
  by (simp add: findBestMatch_f32_def case_prod_beta)

lemma findBestMatch_f32_None:
  assumes "\<forall>e \<in> set es. elem_score_f32 e q \<le> f32 0.3"
  shows "findBestMatch_f32 es q = None"
proof (cases "\<exists>e \<in> set es. 0 < elem_score_f32 e q")
  case True
  from best_loop_f32_first [OF True, where i = 0 and best = None]
  obtain k where k: "k < length es"
    "elem_score_f32 (es ! k) q = snd (best_loop_f32 es q 0 None 0)"
    by blast
  from k(1) assms have "elem_score_f32 (es ! k) q \<le> f32 0.3" by simp
  with k(2) show ?thesis
    by (simp add: findBestMatch_f32_alt)
next
  case False
  then have "\<forall>e \<in> set es. elem_score_f32 e q \<le> 0" by auto
  from best_loop_f32_unchanged [OF this, of 0 None]
  show ?thesis by (simp add: findBestMatch_f32_alt)
qed

lemma findBestMatch_f32_Some:
  assumes "\<exists>e \<in> set es. f32 0.3 < elem_score_f32 e q"
  shows "\<exists>k < length es. findBestMatch_f32 es q = Some k \<and> f32 0.3 < elem_score_f32 (es ! k) q \<and>
    (\<forall>e \<in> set es. elem_score_f32 e q \<le> elem_score_f32 (es ! k) q) \<and>
    (\<forall>j < k. elem_score_f32 (es ! j) q < elem_score_f32 (es ! k) q)"
proof -
  from assms obtain e where e: "e \<in> set es" "f32 0.3 < elem_score_f32 e q" by blast
  then have "\<exists>e \<in> set es. 0 < elem_score_f32 e q"
    using f32_threshold_pos by force
  from best_loop_f32_first [OF this, where i = 0 and best = None]
  obtain k where k: "k < length es"
    "fst (best_loop_f32 es q 0 None 0) = Some k"
    "elem_score_f32 (es ! k) q = snd (best_loop_f32 es q 0 None 0)"
    "\<forall>j < k. elem_score_f32 (es ! j) q < snd (best_loop_f32 es q 0 None 0)"
    by auto
  have up: "\<forall>e \<in> set es. elem_score_f32 e q \<le> elem_score_f32 (es ! k) q"
    using best_loop_f32_upper [of _ es q 0 None 0] k(3) by simp
  with e have gt: "f32 0.3 < elem_score_f32 (es ! k) q" by force
  have "findBestMatch_f32 es q = Some k"
    using k(2,3) gt by (simp add: findBestMatch_f32_alt)
  with k(1,3,4) up gt show ?thesis by auto
qed

lemma findBestMatch_f32_SomeD:
  assumes "findBestMatch_f32 es q = Some k"
  shows "k < length es \<and> f32 0.3 < elem_score_f32 (es ! k) q"
proof (cases "\<exists>e \<in> set es. f32 0.3 < elem_score_f32 e q")
  case True
  from findBestMatch_f32_Some [OF True] assms show ?thesis by auto
next
  case False
  then have "\<forall>e \<in> set es. elem_score_f32 e q \<le> f32 0.3" by auto
  from findBestMatch_f32_None [OF this] assms show ?thesis by simp
qed

lemma findBestMatch_f32_first_max:
  assumes i: "i < length es" and gt: "f32 0.3 < elem_score_f32 (es ! i) q"
    and mx: "\<forall>j < length es. elem_score_f32 (es ! j) q \<le> elem_score_f32 (es ! i) q"
    and fst: "\<forall>j < i. elem_score_f32 (es ! j) q < elem_score_f32 (es ! i) q"
  shows "findBestMatch_f32 es q = Some i"
proof -
  from i gt have "\<exists>e \<in> set es. f32 0.3 < elem_score_f32 e q" by force
  from findBestMatch_f32_Some [OF this]
  obtain k where k: "k < length es" "findBestMatch_f32 es q = Some k"
    "\<forall>e \<in> set es. elem_score_f32 e q \<le> elem_score_f32 (es ! k) q"
    "\<forall>j < k. elem_score_f32 (es ! j) q < elem_score_f32 (es ! k) q"
    by blast
  from k(3) i have a: "elem_score_f32 (es ! i) q \<le> elem_score_f32 (es ! k) q" by simp
  from mx k(1) have b: "elem_score_f32 (es ! k) q \<le> elem_score_f32 (es ! i) q" by simp
  have "\<not> k < i" using fst a by force
  moreover have "\<not> i < k" using k(4) b by force
  ultimately have "k = i" by simp
  with k(2) show ?thesis by simp
qed

lemma best_loop_f32_first_max:
  assumes i: "i < length es" and gt: "bs < elem_score_f32 (es ! i) q"
    and mx: "\<forall>j < length es. elem_score_f32 (es ! j) q \<le> elem_score_f32 (es ! i) q"
    and fst: "\<forall>j < i. elem_score_f32 (es ! j) q < elem_score_f32 (es ! i) q"
  shows "best_loop_f32 es q 0 best bs = (Some i, elem_score_f32 (es ! i) q)"
proof -
  from i gt have "\<exists>e \<in> set es. bs < elem_score_f32 e q" by force
  from best_loop_f32_first [OF this, where i = 0 and best = best]
  obtain k where k: "k < length es"
    "fst (best_loop_f32 es q 0 best bs) = Some k"
    "elem_score_f32 (es ! k) q = snd (best_loop_f32 es q 0 best bs)"
    "\<forall>j < k. elem_score_f32 (es ! j) q < snd (best_loop_f32 es q 0 best bs)"
    by auto
  from best_loop_f32_upper [of "es ! i" es q 0 best bs] i k(3)
  have a: "elem_score_f32 (es ! i) q \<le> elem_score_f32 (es ! k) q" by simp
  from mx k(1) have b: "elem_score_f32 (es ! k) q \<le> elem_score_f32 (es ! i) q" by simp
  have "\<not> k < i" using fst a by force
  moreover have "\<not> i < k" using k(3,4) b by force
  ultimately have "k = i" by simp
  with k(2,3) show ?thesis by (simp add: prod_eq_iff)
qed

text \<open>
  C4. The threshold is an absolute floor. In binary32, as the program computes, it is
  \<^verbatim>\<open>0.3f\<close>, the number 5033165 / 16777216. When no element scores above it (so also
  when the best score is exactly \<^verbatim>\<open>0.3f\<close>, and when there is no element at all)
  \<open>findBestMatch\<close> returns the null pointer; when some element scores above it,
  \<open>findBestMatch\<close> returns an element whose score is above it and is the largest of all.
\<close>

theorem findBestMatch_f32_threshold:
  "f32 0.3 = 5033165 / 16777216 \<and>
   ((\<forall>e \<in> set es. elem_score_f32 e q \<le> f32 0.3) \<longrightarrow> findBestMatch_f32 es q = None) \<and>
   ((\<exists>e \<in> set es. f32 0.3 < elem_score_f32 e q) \<longrightarrow>
      (\<exists>k < length es. findBestMatch_f32 es q = Some k \<and>
         f32 0.3 < elem_score_f32 (es ! k) q \<and>
         (\<forall>e \<in> set es. elem_score_f32 e q \<le> elem_score_f32 (es ! k) q)))"
proof (intro conjI impI)
  show "f32 0.3 = 5033165 / 16777216" by (rule f32_threshold)
next
  assume "\<forall>e \<in> set es. elem_score_f32 e q \<le> f32 0.3"
  then show "findBestMatch_f32 es q = None" by (rule findBestMatch_f32_None)
next
  assume "\<exists>e \<in> set es. f32 0.3 < elem_score_f32 e q"
  from findBestMatch_f32_Some [OF this]
  show "\<exists>k < length es. findBestMatch_f32 es q = Some k \<and>
         f32 0.3 < elem_score_f32 (es ! k) q \<and>
         (\<forall>e \<in> set es. elem_score_f32 e q \<le> elem_score_f32 (es ! k) q)"
    by blast
qed

theorem findBestMatch_f32_threshold_witness:
  "f32 0.3 = 5033165 / 16777216 \<and>
   elem_score_f32 (text_candidate ''ab'' (60 + 1 / 2 ^ 18)) ''ca'' = 5033165 / 16777216 \<and>
   findBestMatch_f32 [text_candidate ''ab'' (60 + 1 / 2 ^ 18)] ''ca'' = None \<and>
   elem_score_f32 (button_candidate ''aaaaabbbb'' 45) ''ac'' = 10066331 / 33554432 \<and>
   findBestMatch_f32 [button_candidate ''aaaaabbbb'' 45] ''ac'' = Some 0"
proof -
  let ?a = "text_candidate ''ab'' (60 + 1 / 2 ^ 18)"
    and ?b = "button_candidate ''aaaaabbbb'' 45"
  have a: "elem_score_f32 ?a ''ca'' = 5033165 / 16777216" by code_simp
  have b: "elem_score_f32 ?b ''ac'' = 10066331 / 33554432" by code_simp
  have "\<forall>e \<in> set [?a]. elem_score_f32 e ''ca'' \<le> f32 0.3"
    using a by (simp add: f32_threshold)
  with findBestMatch_f32_threshold [of "[?a]" "''ca''"]
  have none: "findBestMatch_f32 [?a] ''ca'' = None" by blast
  have "\<exists>e \<in> set [?b]. f32 0.3 < elem_score_f32 e ''ac''"
    using b by (simp add: f32_threshold)
  with findBestMatch_f32_threshold [of "[?b]" "''ac''"]
  obtain k where k: "k < length [?b]" "findBestMatch_f32 [?b] ''ac'' = Some k" by blast
  then have some: "findBestMatch_f32 [?b] ''ac'' = Some 0" by simp
  from a b none some f32_threshold show ?thesis by simp
qed

text \<open>
  C5. The element returned is the first one that reaches the highest score, the scores
  being the binary32 numbers the program computes: when the element at index \<open>i\<close>
  scores above \<^verbatim>\<open>0.3f\<close>, no element scores more, and every earlier element scores
  strictly less, \<open>findBestMatch\<close> returns index \<open>i\<close>. Before the threshold is applied,
  the loop leaves the same element in \<open>best\<close> and its score in \<open>bestScore\<close> as soon as
  that score is positive. In particular, of two elements \<open>A\<close>, \<open>B\<close> that both score
  0.5, in this order, \<open>A\<close> is returned.
\<close>

theorem findBestMatch_f32_first_seen_wins:
  "(i < length es \<and> f32 0.3 < elem_score_f32 (es ! i) q \<and>
    (\<forall>j < length es. elem_score_f32 (es ! j) q \<le> elem_score_f32 (es ! i) q) \<and>
    (\<forall>j < i. elem_score_f32 (es ! j) q < elem_score_f32 (es ! i) q)
      \<longrightarrow> findBestMatch_f32 es q = Some i) \<and>
   (i < length es \<and> 0 < elem_score_f32 (es ! i) q \<and>
    (\<forall>j < length es. elem_score_f32 (es ! j) q \<le> elem_score_f32 (es ! i) q) \<and>
    (\<forall>j < i. elem_score_f32 (es ! j) q < elem_score_f32 (es ! i) q)
      \<longrightarrow> best_loop_f32 es q 0 None 0 = (Some i, elem_score_f32 (es ! i) q)) \<and>
   (elem_score_f32 A q = 0.5 \<and> elem_score_f32 B q = 0.5 \<longrightarrow>
      findBestMatch_f32 [A, B] q = Some 0)"
proof (intro conjI impI)
  assume "i < length es \<and> f32 0.3 < elem_score_f32 (es ! i) q \<and>
    (\<forall>j < length es. elem_score_f32 (es ! j) q \<le> elem_score_f32 (es ! i) q) \<and>
    (\<forall>j < i. elem_score_f32 (es ! j) q < elem_score_f32 (es ! i) q)"
  then show "findBestMatch_f32 es q = Some i"
    using findBestMatch_f32_first_max [of i es q] by blast
next
  assume "i < length es \<and> 0 < elem_score_f32 (es ! i) q \<and>
    (\<forall>j < length es. elem_score_f32 (es ! j) q \<le> elem_score_f32 (es ! i) q) \<and>
    (\<forall>j < i. elem_score_f32 (es ! j) q < elem_score_f32 (es ! i) q)"
  then show "best_loop_f32 es q 0 None 0 = (Some i, elem_score_f32 (es ! i) q)"
    using best_loop_f32_first_max [of i es 0 q None] by blast
next
  assume h: "elem_score_f32 A q = 0.5 \<and> elem_score_f32 B q = 0.5"
  show "findBestMatch_f32 [A, B] q = Some 0"
  proof (rule findBestMatch_f32_first_max)
    show "\<forall>j < length [A, B]. elem_score_f32 ([A, B] ! j) q \<le> elem_score_f32 ([A, B] ! 0) q"
      using h by (auto simp: nth_Cons split: nat.splits)
    show "f32 0.3 < elem_score_f32 ([A, B] ! 0) q"
      using h by (simp add: f32_threshold)
  qed simp_all
qed

theorem findBestMatch_f32_first_seen_wins_witness:
  "elem_score_f32 (text_candidate ''ab'' 100) ''ca'' = 0.5 \<and>
   elem_score_f32 (text_candidate ''cb'' 100) ''ca'' = 0.5 \<and>
   findBestMatch_f32 [text_candidate ''ab'' 100, text_candidate ''cb'' 100] ''ca'' = Some 0 \<and>
   elem_score_f32 (text_candidate ''abxy'' 90) ''abcd'' = 15099494 / 33554432 \<and>
   elem_score_f32 (text_candidate ''abce'' 60) ''abcd'' = 15099495 / 33554432 \<and>
   findBestMatch_f32 [text_candidate ''abxy'' 90, text_candidate ''abce'' 60] ''abcd'' = Some 1 \<and>
   best_loop_f32 [text_candidate ''abxy'' 90, text_candidate ''abce'' 60] ''abcd'' 0 None 0 =
     (Some 1, 15099495 / 33554432)"
proof -
  let ?a = "text_candidate ''ab'' 100" and ?b = "text_candidate ''cb'' 100"
    and ?c = "text_candidate ''abxy'' 90" and ?d = "text_candidate ''abce'' 60"
  have a: "elem_score_f32 ?a ''ca'' = 0.5" by code_simp
  have b: "elem_score_f32 ?b ''ca'' = 0.5" by code_simp
  have c: "elem_score_f32 ?c ''abcd'' = 15099494 / 33554432" by code_simp
  have d: "elem_score_f32 ?d ''abcd'' = 15099495 / 33554432" by code_simp
  have two: "findBestMatch_f32 [?a, ?b] ''ca'' = Some 0"
    using findBestMatch_f32_first_seen_wins [of 0 "[?a, ?b]" "''ca''" ?a ?b] a b by blast
  have h: "1 < length [?c, ?d]"
    "f32 0.3 < elem_score_f32 ([?c, ?d] ! 1) ''abcd''"
    "0 < elem_score_f32 ([?c, ?d] ! 1) ''abcd''"
    "\<forall>j < length [?c, ?d].
       elem_score_f32 ([?c, ?d] ! j) ''abcd'' \<le> elem_score_f32 ([?c, ?d] ! 1) ''abcd''"
    "\<forall>j < 1. elem_score_f32 ([?c, ?d] ! j) ''abcd'' < elem_score_f32 ([?c, ?d] ! 1) ''abcd''"
    using c d by (auto simp: nth_Cons f32_threshold split: nat.splits)
  have second: "findBestMatch_f32 [?c, ?d] ''abcd'' = Some 1"
    using findBestMatch_f32_first_seen_wins [of 1 "[?c, ?d]" "''abcd''" ?a ?b] h by blast
  have "best_loop_f32 [?c, ?d] ''abcd'' 0 None 0 =
      (Some 1, elem_score_f32 ([?c, ?d] ! 1) ''abcd'')"
    using findBestMatch_f32_first_seen_wins [of 1 "[?c, ?d]" "''abcd''" ?a ?b] h by blast
  then have loop: "best_loop_f32 [?c, ?d] ''abcd'' 0 None 0 = (Some 1, 15099495 / 33554432)"
    using d by simp
  from a b c d two second loop show ?thesis by simp
qed

end
